theory Spec2Isabelle
  imports Main "HOL-Library.Sublist"
begin

section \<open>C strings and the library calls of connection.c\<close>

text \<open>
  A \<open>char*\<close> argument is modelled by the bytes stored at the pointer; the C string it
  denotes ends before the first NUL byte.  A HOL \<open>string\<close> is a list of bytes.
\<close>

abbreviation NUL :: char where "NUL \<equiv> CHR 0x00"
abbreviation CR :: char where "CR \<equiv> CHR 0x0D"
abbreviation LF :: char where "LF \<equiv> CHR 0x0A"

definition CRLF :: string where
  "CRLF = [CR, LF]"

definition c_str :: "string \<Rightarrow> string" where
  "c_str bytes = takeWhile (\<lambda>c. c \<noteq> NUL) bytes"

text \<open>\<open>isspace\<close> in the C locale: space, \<open>\t\<close>, \<open>\n\<close>, \<open>\v\<close>, \<open>\f\<close>, \<open>\r\<close>.\<close>

definition isspace :: "char \<Rightarrow> bool" where
  "isspace c = (c = CHR '' '' \<or> c = CHR 0x09 \<or> c = CHR 0x0A \<or> c = CHR 0x0B
                \<or> c = CHR 0x0C \<or> c = CHR 0x0D)"

text \<open>
  \<open>strstr(hay, needle)\<close>: the suffix of \<open>hay\<close> that starts at the first occurrence of
  \<open>needle\<close>, or \<open>None\<close> for the NULL pointer.
\<close>

fun strstr :: "string \<Rightarrow> string \<Rightarrow> string option" where
  "strstr [] needle = (if needle = [] then Some [] else None)"
| "strstr (c # cs) needle =
     (if prefix needle (c # cs) then Some (c # cs) else strstr cs needle)"

text \<open>
  One \<open>%s\<close> (width \<open>None\<close>) or \<open>%Ns\<close> (width \<open>Some N\<close>) conversion of \<open>sscanf\<close>:
  leading white space is skipped, then the longest run of non-space characters (at most
  \<open>N\<close>) is stored.  \<open>None\<close> when the input ends before a character is stored;
  otherwise the stored token and the unread rest of the input.
\<close>

definition scan_str :: "nat option \<Rightarrow> string \<Rightarrow> (string \<times> string) option" where
  "scan_str width inp =
     (let s = dropWhile isspace inp;
          run = takeWhile (\<lambda>c. \<not> isspace c) s;
          tok = (case width of None \<Rightarrow> run | Some w \<Rightarrow> take w run)
      in if tok = [] then None else Some (tok, drop (length tok) s))"

text \<open>
  \<open>sscanf(inp, "%s %s", method, path)\<close>: the number of conversions stored (\<open>-1\<close> is
  \<open>EOF\<close>) and the two destinations; a destination that is not assigned keeps its
  contents.
\<close>

definition sscanf_s_s :: "string \<Rightarrow> string \<Rightarrow> string \<Rightarrow> int \<times> string \<times> string" where
  "sscanf_s_s inp method path =
     (case scan_str None inp of
        None \<Rightarrow> (- 1, method, path)
      | Some (m, rest) \<Rightarrow>
          (case scan_str None (dropWhile isspace rest) of
             None \<Rightarrow> (1, m, path)
           | Some (p, rest') \<Rightarrow> (2, m, p)))"

section \<open>parse_request\<close>

text \<open>
  The return value of \<open>parse_request\<close> and the C strings held by its three output
  buffers when it returns.  The function receives pointers only: it writes
  \<open>length s + 1\<close> bytes for a string \<open>s\<close>, whatever the size of the caller's buffer.
\<close>

record parse_out =
  ret :: int
  p_method :: string
  p_path :: string
  p_body :: string

definition parse_request :: "string \<Rightarrow> string \<Rightarrow> string \<Rightarrow> string \<Rightarrow> parse_out" where
  "parse_request raw method path body =
     (case strstr (c_str raw) CRLF of
        None \<Rightarrow> \<lparr>ret = - 1, p_method = method, p_path = path, p_body = body\<rparr>
      | Some line_end \<Rightarrow>
          (case sscanf_s_s (c_str raw) method path of
             (n, method', path') \<Rightarrow>
               (case strstr (c_str raw) (CRLF @ CRLF) of
                  None \<Rightarrow> \<lparr>ret = 0, p_method = method', p_path = path', p_body = body\<rparr>
                | Some body_start \<Rightarrow>
                    \<lparr>ret = 0, p_method = method', p_path = path',
                     p_body = drop 4 body_start\<rparr>)))"

text \<open>Bytes stored by \<open>strcpy\<close> or by a \<open>%s\<close> conversion: the string and its NUL.\<close>

definition bytes_written :: "string \<Rightarrow> nat" where
  "bytes_written s = length s + 1"

section \<open>The connection table\<close>

definition MAX_CONNECTIONS :: nat where
  "MAX_CONNECTIONS = 100"

definition RECV_BUFFER_SIZE :: nat where
  "RECV_BUFFER_SIZE = 2048"

text \<open>
  \<open>struct Connection\<close>.  \<open>client_ip\<close> is a pointer to a heap string (\<open>None\<close> is NULL);
  \<open>username\<close> is the C string held by the 64-byte array; \<open>thread\<close> is the identifier
  stored by \<open>pthread_create\<close>.
\<close>

record Connection =
  socket :: int
  client_ip :: "string option"
  authenticated :: int
  username :: string
  thread :: nat
  active :: int

text \<open>
  The static variables \<open>connections\<close> and \<open>conn_count\<close>, and the part of the process
  environment that the functions of connection.c act on:
  \<^item> \<open>closed\<close>: the descriptors passed to \<open>close\<close>, in order;
  \<^item> \<open>workers\<close>: the slot argument of every thread started by \<open>pthread_create\<close> that has
    not yet returned from \<open>handle_connection\<close>; \<open>spawned\<close> counts the threads started;
  \<^item> \<open>sent\<close>: the calls of \<open>send\<close> (descriptor and bytes), in order;
  \<^item> \<open>printed\<close>: the lines written by \<open>printf\<close>;
  \<^item> \<open>files\<close>: the file system, a map from path to contents; \<open>writable\<close> tells whether
    \<open>fopen(path, "w")\<close> succeeds;
  \<^item> \<open>shell\<close>: what \<open>popen(cmd, "r")\<close> does: \<open>None\<close> when it fails, otherwise the
    command's output and the file system it leaves.
  \<open>accept_connection\<close>, \<open>close_all_connections\<close> and the clean-up block of
  \<open>handle_connection\<close> change the table while they hold \<open>conn_mutex\<close>, so each of
  them is one atomic step on this state.  \<open>conn_count\<close> is a C
  \<open>int\<close>; it changes by one per accepted connection or finished worker, so it is far
  from the limits of \<open>int\<close> in any run, and is modelled by an unbounded integer.
\<close>

record state =
  connections :: "Connection list"
  conn_count :: int
  closed :: "int list"
  workers :: "nat list"
  spawned :: nat
  sent :: "(int \<times> string) list"
  printed :: "string list"
  files :: "string \<Rightarrow> string option"
  writable :: "string \<Rightarrow> bool"
  shell :: "string \<Rightarrow> (string \<Rightarrow> string option) \<Rightarrow> (string \<times> (string \<Rightarrow> string option)) option"

text \<open>\<open>find_free_slot\<close>: the \<open>for\<close> loop from index \<open>i\<close> on.\<close>

function find_free_slot_from :: "Connection list \<Rightarrow> nat \<Rightarrow> int" where
  "find_free_slot_from conns i =
     (if i < MAX_CONNECTIONS then
        (if active (conns ! i) = 0 then int i else find_free_slot_from conns (i + 1))
      else - 1)"
  by pat_completeness auto
termination
  by (relation "measure (\<lambda>(conns, i). MAX_CONNECTIONS - i)") auto

declare find_free_slot_from.simps [simp del]

definition find_free_slot :: "Connection list \<Rightarrow> int" where
  "find_free_slot conns = find_free_slot_from conns 0"

text \<open>
  \<open>accept_connection\<close>.  The result of \<open>accept\<close> is an input: the new descriptor
  (negative on failure) and the peer address as printed by \<open>inet_ntoa\<close>.  The
  allocations (\<open>strdup\<close>, \<open>malloc\<close>) and \<open>pthread_create\<close> are taken to succeed.
\<close>

definition accept_connection :: "state \<Rightarrow> int \<Rightarrow> string \<Rightarrow> int \<times> state" where
  "accept_connection s client_socket peer =
     (if client_socket < 0 then (- 1, s)
      else
        (let slot = find_free_slot (connections s) in
         if slot < 0 then (- 1, s\<lparr>closed := closed s @ [client_socket]\<rparr>)
         else
           (slot,
            s\<lparr>connections := (connections s)[nat slot :=
                   (connections s ! nat slot)
                     \<lparr>socket := client_socket, client_ip := Some peer,
                      authenticated := 0, thread := spawned s, active := 1\<rparr>],
              conn_count := conn_count s + 1,
              workers := workers s @ [nat slot],
              spawned := spawned s + 1,
              printed := printed s @ [''New connection from '' @ peer @ [LF]]\<rparr>)))"

text \<open>
  The end of \<open>handle_connection\<close>, after the loop: \<open>close(conn->socket)\<close>, then under
  the mutex \<open>active = 0\<close>, the address freed and set to NULL, \<open>conn_count--\<close>; the thread
  returns.
\<close>

definition worker_cleanup :: "state \<Rightarrow> nat \<Rightarrow> state" where
  "worker_cleanup s slot =
     s\<lparr>closed := closed s @ [socket (connections s ! slot)],
       connections := (connections s)[slot :=
          (connections s ! slot)\<lparr>active := 0, client_ip := None\<rparr>],
       conn_count := conn_count s - 1,
       workers := remove1 slot (workers s)\<rparr>"

text \<open>\<open>close_all_connections\<close>: the \<open>for\<close> loop from index \<open>i\<close> on, then the whole.\<close>

function close_all_from :: "state \<Rightarrow> nat \<Rightarrow> state" where
  "close_all_from s i =
     (if i < MAX_CONNECTIONS then
        (if active (connections s ! i) \<noteq> 0 then
           close_all_from
             (s\<lparr>closed := closed s @ [socket (connections s ! i)],
                connections := (connections s)[i := (connections s ! i)\<lparr>active := 0\<rparr>]\<rparr>)
             (i + 1)
         else close_all_from s (i + 1))
      else s)"
  by pat_completeness auto
termination
  by (relation "measure (\<lambda>(s, i). MAX_CONNECTIONS - i)") auto

declare close_all_from.simps [simp del]

definition close_all_connections :: "state \<Rightarrow> state" where
  "close_all_connections s = (close_all_from s 0)\<lparr>conn_count := 0\<rparr>"

text \<open>
  The table at program start (static storage is zero), with an environment, and the
  number of slots whose \<open>active\<close> flag is set.
\<close>

definition zero_connection :: Connection where
  "zero_connection =
     \<lparr>socket = 0, client_ip = None, authenticated = 0, username = [], thread = 0,
      active = 0\<rparr>"

definition init_state :: state where
  "init_state =
     \<lparr>connections = replicate MAX_CONNECTIONS zero_connection, conn_count = 0,
      closed = [], workers = [], spawned = 0, sent = [], printed = [],
      files = (\<lambda>p. None), writable = (\<lambda>p. False), shell = (\<lambda>c fs. None)\<rparr>"

definition active_count :: "state \<Rightarrow> nat" where
  "active_count s = length (filter (\<lambda>c. active c \<noteq> 0) (connections s))"

text \<open>
  The operations on the table, as the threads of the server perform them: the main
  thread accepts and shuts down; a worker that is still running leaves its loop and
  runs the clean-up block.
\<close>

datatype registry_op = Accept int string | WorkerExit nat | CloseAll

fun registry_step :: "state \<Rightarrow> registry_op \<Rightarrow> state" where
  "registry_step s (Accept client_socket peer) = snd (accept_connection s client_socket peer)"
| "registry_step s (WorkerExit slot) =
     (if slot \<in> set (workers s) then worker_cleanup s slot else s)"
| "registry_step s CloseAll = close_all_connections s"

definition run_ops :: "state \<Rightarrow> registry_op list \<Rightarrow> state" where
  "run_ops s ops = foldl registry_step s ops"

text \<open>
  The relation between the counter, the table and the running workers that holds as
  long as \<open>close_all_connections\<close> has not been called, and the runs without that
  call.
\<close>

definition registry_inv :: "state \<Rightarrow> bool" where
  "registry_inv s =
     (length (connections s) = MAX_CONNECTIONS
      \<and> conn_count s = int (active_count s)
      \<and> distinct (workers s)
      \<and> set (workers s) = {i. i < MAX_CONNECTIONS \<and> active (connections s ! i) \<noteq> 0})"

definition no_close_all :: "registry_op list \<Rightarrow> bool" where
  "no_close_all ops = list_all (\<lambda>op. op \<noteq> CloseAll) ops"

section \<open>The worker: handle_connection\<close>

text \<open>
  Ways in which an execution leaves defined behaviour: a write past the end of a local
  array, a string read that runs past the end of the receive buffer, and a read of the
  \<open>response\<close> array when no branch has written it.
\<close>

datatype fault = BufferOverflow | BufferOverread | UninitializedRead

text \<open>\<open>%zu\<close> and \<open>%d\<close> of \<open>sprintf\<close>: decimal digits, with a sign for a negative \<open>int\<close>.\<close>

definition digit_char :: "nat \<Rightarrow> char" where
  "digit_char d = char_of (48 + d)"

function dec_nat :: "nat \<Rightarrow> string" where
  "dec_nat n = (if n < 10 then [digit_char n] else dec_nat (n div 10) @ [digit_char (n mod 10)])"
  by pat_completeness auto
termination
  by (relation "measure (\<lambda>n. n)") auto

declare dec_nat.simps [simp del]

definition dec_int :: "int \<Rightarrow> string" where
  "dec_int i = (if i < 0 then CHR ''-'' # dec_nat (nat (- i)) else dec_nat (nat i))"

text \<open>
  An ordinary (non-space) run of characters in a \<open>sscanf\<close> format matches the same
  characters of the input and nothing else.
\<close>

definition match_lit :: "string \<Rightarrow> string \<Rightarrow> string option" where
  "match_lit lit inp = (if prefix lit inp then Some (drop (length lit) inp) else None)"

text \<open>
  \<open>sscanf(body, "user=%63s&pass=%63s", username, password) == 2\<close>: the two strings when
  both conversions are stored, \<open>None\<close> for any other return value.
\<close>

definition sscanf_user_pass :: "string \<Rightarrow> (string \<times> string) option" where
  "sscanf_user_pass inp =
     (case match_lit ''user='' inp of
        None \<Rightarrow> None
      | Some r1 \<Rightarrow>
          (case scan_str (Some 63) r1 of
             None \<Rightarrow> None
           | Some (user, r2) \<Rightarrow>
               (case match_lit ''&pass='' r2 of
                  None \<Rightarrow> None
                | Some r3 \<Rightarrow>
                    (case scan_str (Some 63) r3 of
                       None \<Rightarrow> None
                     | Some (pass, r4) \<Rightarrow> Some (user, pass)))))"

text \<open>
  \<open>sscanf(body, "filename=%255s&", filename) == 1\<close>: the file name when the conversion
  is stored; the return value is 1 whether or not the final \<open>&\<close> matches.
\<close>

definition sscanf_filename :: "string \<Rightarrow> string option" where
  "sscanf_filename inp =
     (case match_lit ''filename='' inp of
        None \<Rightarrow> None
      | Some r1 \<Rightarrow>
          (case scan_str (Some 255) r1 of
             None \<Rightarrow> None
           | Some (name, r2) \<Rightarrow> Some name))"

text \<open>\<open>fread(buf, 1, n, fp)\<close> on a freshly opened stream: the first \<open>n\<close> bytes.\<close>

definition fread :: "string \<Rightarrow> nat \<Rightarrow> string" where
  "fread data n = take n data"

text \<open>
  The body of \<open>if (parse_request(...) == 0)\<close> up to the call of \<open>send\<close>: the contents
  of \<open>response\<close> (\<open>None\<close> when no branch has written the array) and the new state.
  \<open>method\<close>, \<open>path\<close> and \<open>body\<close> are the C strings in the three local arrays.  Every
  response fits the 4096-byte array: the longest is a header of fewer than 50 bytes
  followed by at most 2047 bytes.
\<close>

definition handle_request ::
  "state \<Rightarrow> nat \<Rightarrow> string \<Rightarrow> string \<Rightarrow> string \<Rightarrow> fault + (string option \<times> state)" where
  "handle_request s slot method path body =
     (if method = ''GET'' then
        (if take 6 path = ''/file/'' then
           (let filepath = ''/var/data'' @ drop 5 path in
            if 512 < bytes_written filepath then Inl BufferOverflow
            else
              (case files s filepath of
                 Some data \<Rightarrow>
                   (let content = fread data (2048 - 1); len = length content in
                    Inr (Some (''HTTP/1.1 200 OK'' @ CRLF @ ''Content-Length: '' @ dec_nat len
                               @ CRLF @ CRLF @ c_str content), s))
               | None \<Rightarrow>
                   Inr (Some (''HTTP/1.1 404 Not Found'' @ CRLF @ CRLF @ ''File not found''), s)))
         else if path = ''/status'' then
           Inr (Some (''HTTP/1.1 200 OK'' @ CRLF @ CRLF @ ''Server running, connections: ''
                      @ dec_int (conn_count s)), s)
         else Inr (Some (''HTTP/1.1 404 Not Found'' @ CRLF @ CRLF @ ''Not found''), s))
      else if method = ''POST'' then
        (if path = ''/login'' then
           (case sscanf_user_pass body of
              Some (user, pass) \<Rightarrow>
                (let s1 = s\<lparr>printed := printed s
                             @ [''Login attempt: '' @ user @ '' / '' @ pass @ [LF]]\<rparr> in
                 if pass = ''admin123'' \<or> user = ''debug'' then
                   Inr (Some (''HTTP/1.1 200 OK'' @ CRLF @ CRLF @ ''Login successful''),
                        s1\<lparr>connections := (connections s1)[slot :=
                             (connections s1 ! slot)
                               \<lparr>authenticated := 1, username := take 63 user\<rparr>]\<rparr>)
                 else
                   Inr (Some (''HTTP/1.1 401 Unauthorized'' @ CRLF @ CRLF
                              @ ''Invalid credentials''), s1))
            | None \<Rightarrow> Inr (None, s))
         else if path = ''/exec'' then
           (if body \<noteq> [] then
              (case shell s body (files s) of
                 Some (out, fs') \<Rightarrow>
                   Inr (Some (''HTTP/1.1 200 OK'' @ CRLF @ CRLF @ c_str (fread out (2048 - 1))),
                        s\<lparr>files := fs'\<rparr>)
               | None \<Rightarrow>
                   Inr (Some (''HTTP/1.1 500 Error'' @ CRLF @ CRLF @ ''Execution failed''), s))
            else Inr (None, s))
         else if path = ''/upload'' then
           (case sscanf_filename body of
              Some filename \<Rightarrow>
                (case strstr body ''&content='' of
                   Some content \<Rightarrow>
                     (if writable s filename then
                        Inr (Some (''HTTP/1.1 200 OK'' @ CRLF @ CRLF @ ''File saved''),
                             s\<lparr>files := (files s)(filename \<mapsto> drop 9 content)\<rparr>)
                      else Inr (None, s))
                 | None \<Rightarrow> Inr (None, s))
            | None \<Rightarrow> Inr (None, s))
         else Inr (Some (''HTTP/1.1 404 Not Found'' @ CRLF @ CRLF @ ''Not found''), s))
      else Inr (Some (''HTTP/1.1 405 Method Not Allowed'' @ CRLF @ CRLF), s))"

text \<open>
  What \<open>recv\<close> returns to the worker: bytes from the peer (none at all is the return
  value 0), or an error.  \<open>recv_buffer\<close> is the receive buffer after \<open>memset\<close> and
  \<open>recv\<close>: at most \<open>RECV_BUFFER_SIZE\<close> bytes are stored, the rest stays zero.
\<close>

datatype recv_result = Bytes string | RecvError

definition recv_buffer :: "string \<Rightarrow> string" where
  "recv_buffer input =
     take RECV_BUFFER_SIZE input
       @ replicate (RECV_BUFFER_SIZE - length (take RECV_BUFFER_SIZE input)) NUL"

text \<open>
  The states of a worker: \<open>Reading\<close> at the head of the loop, \<open>Closed\<close> after the
  clean-up block.
\<close>

datatype worker_state = Reading | Closed

text \<open>
  One turn of the \<open>while (conn->active)\<close> loop, the clean-up block included when the
  loop is left.  The three arrays handed to \<open>parse_request\<close> are zeroed and hold 16, 256
  and 1024 bytes.
\<close>

definition worker_iter :: "state \<Rightarrow> nat \<Rightarrow> recv_result \<Rightarrow> fault + (worker_state \<times> state)" where
  "worker_iter s slot r =
     (if active (connections s ! slot) = 0 then Inr (Closed, worker_cleanup s slot)
      else
        (case r of
           RecvError \<Rightarrow> Inr (Closed, worker_cleanup s slot)
         | Bytes input \<Rightarrow>
             (if take RECV_BUFFER_SIZE input = [] then Inr (Closed, worker_cleanup s slot)
              else if NUL \<notin> set (recv_buffer input) then Inl BufferOverread
              else
                (let req = parse_request (recv_buffer input) [] [] [] in
                 if ret req = 0 then
                   (if 16 < bytes_written (p_method req) \<or> 256 < bytes_written (p_path req)
                        \<or> 1024 < bytes_written (p_body req)
                    then Inl BufferOverflow
                    else
                      (case handle_request s slot (p_method req) (p_path req) (p_body req) of
                         Inl f \<Rightarrow> Inl f
                       | Inr (None, s') \<Rightarrow> Inl UninitializedRead
                       | Inr (Some response, s') \<Rightarrow>
                           Inr (Reading,
                                s'\<lparr>sent := sent s'
                                     @ [(socket (connections s' ! slot), response)]\<rparr>)))
                 else Inr (Reading, s)))))"

text \<open>
  \<open>handle_connection\<close> for the worker of \<open>slot\<close>, given what its successive calls of
  \<open>recv\<close> return.  When the list is used up the worker is blocked in \<open>recv\<close>, unless
  the slot has been deactivated.
\<close>

fun handle_connection :: "state \<Rightarrow> nat \<Rightarrow> recv_result list \<Rightarrow> fault + (worker_state \<times> state)" where
  "handle_connection s slot [] =
     (if active (connections s ! slot) = 0 then Inr (Closed, worker_cleanup s slot)
      else Inr (Reading, s))"
| "handle_connection s slot (r # rs) =
     (case worker_iter s slot r of
        Inl f \<Rightarrow> Inl f
      | Inr (Closed, s') \<Rightarrow> Inr (Closed, s')
      | Inr (Reading, s') \<Rightarrow> handle_connection s' slot rs)"

section \<open>The request line in the words of the specification\<close>

text \<open>
  White-space-delimited tokens, independently of \<open>sscanf\<close>: the input is cut at every
  white-space character and the empty pieces are dropped.
\<close>

fun fields :: "string \<Rightarrow> string list" where
  "fields [] = [[]]"
| "fields (c # cs) =
     (if isspace c then [] # fields cs
      else (case fields cs of [] \<Rightarrow> [[c]] | w # ws \<Rightarrow> (c # w) # ws))"

definition tokens :: "string \<Rightarrow> string list" where
  "tokens s = filter (\<lambda>w. w \<noteq> []) (fields s)"

text \<open>The first line of a buffer: everything before the first CRLF.\<close>

fun first_line :: "string \<Rightarrow> string" where
  "first_line [] = []"
| "first_line (c # cs) = (if prefix CRLF (c # cs) then [] else c # first_line cs)"


text \<open>What follows the first line and its CRLF.\<close>

definition after_first_line :: "string \<Rightarrow> string" where
  "after_first_line s = drop (length (first_line s) + 2) s"

text \<open>
  The \<open>Content-Length\<close> header as a client reads it: the decimal number that follows
  the header's name in the response.
\<close>

definition is_digit :: "char \<Rightarrow> bool" where
  "is_digit c = (48 \<le> (of_char c :: nat) \<and> (of_char c :: nat) \<le> 57)"

fun read_dec :: "string \<Rightarrow> nat \<Rightarrow> nat" where
  "read_dec [] acc = acc"
| "read_dec (c # cs) acc =
     (if is_digit c then read_dec cs (10 * acc + (of_char c - 48)) else acc)"

definition content_length :: "string \<Rightarrow> nat option" where
  "content_length response =
     (case strstr response ''Content-Length: '' of
        None \<Rightarrow> None
      | Some h \<Rightarrow> Some (read_dec (drop 16 h) 0))"

section \<open>Example states\<close>

text \<open>A table whose hundred slots are all in use.\<close>

definition full_state :: state where
  "full_state =
     init_state\<lparr>connections := replicate MAX_CONNECTIONS (zero_connection\<lparr>active := 1\<rparr>),
                conn_count := 100\<rparr>"

text \<open>The state after the first connection has been accepted, into slot 0.\<close>

definition one_client :: state where
  "one_client = snd (accept_connection init_state 5 ''10.0.0.1'')"

text \<open>
  A login on that connection: a user name of 63 characters, the most that \<open>%63s\<close>
  stores, and the password that is accepted.  \<open>logged_in\<close> is the state after the worker
  has served the request, \<open>stale_state\<close> the state after the peer has gone and the worker
  has run its clean-up block: slot 0 is free and still holds the session fields.
\<close>

definition user63 :: string where
  "user63 = ''u0123456789abcdefghijklmnopqrstuvwxyzABCDEFGHIJKLMNOPQRSTUVWXYZ''"

definition login_body :: string where
  "login_body = ''user='' @ user63 @ ''&pass=admin123''"

definition login_request :: string where
  "login_request = ''POST /login'' @ CRLF @ CRLF @ login_body"

definition logged_in :: state where
  "logged_in =
     one_client
       \<lparr>connections := (connections one_client)[0 :=
          (connections one_client ! 0)\<lparr>authenticated := 1, username := user63\<rparr>],
        printed := printed one_client @ [''Login attempt: '' @ user63 @ '' / admin123'' @ [LF]],
        sent := [(5, ''HTTP/1.1 200 OK'' @ CRLF @ CRLF @ ''Login successful'')]\<rparr>"

definition stale_state :: state where
  "stale_state = worker_cleanup logged_in 0"

text \<open>
  A request of 1040 bytes whose body, the part after the blank line, is 1024 bytes long.
\<close>

definition long_body_request :: string where
  "long_body_request = ''POST /upload'' @ CRLF @ CRLF @ replicate 1024 (CHR ''A'')"

text \<open>A file system with one file of 3000 bytes under \<open>/var/data\<close>.\<close>

definition file_state :: state where
  "file_state =
     init_state\<lparr>files := (\<lambda>p. if p = ''/var/data/a.txt'' then Some (replicate 3000 (CHR ''x''))
                             else None)\<rparr>"

section \<open>Lemmas about the string functions\<close>

lemma strstr_None_iff:
  "strstr hay needle = None \<longleftrightarrow> \<not> (\<exists>a b. hay = a @ needle @ b)"
proof (induction hay)
  case Nil
  then show ?case by auto
next
  case (Cons c cs)
  show ?case
  proof (cases "prefix needle (c # cs)")
    case True
    then obtain b where "c # cs = needle @ b" by (auto simp: prefix_def)
    then have "c # cs = [] @ needle @ b" by simp
    then have "\<exists>a b. c # cs = a @ needle @ b" by blast
    with True show ?thesis by simp
  next
    case False
    have "(\<exists>a b. c # cs = a @ needle @ b) \<longleftrightarrow> (\<exists>a b. cs = a @ needle @ b)"
    proof
      assume "\<exists>a b. c # cs = a @ needle @ b"
      then obtain a b where ab: "c # cs = a @ needle @ b" by blast
      show "\<exists>a b. cs = a @ needle @ b"
      proof (cases a)
        case Nil
        with ab have "prefix needle (c # cs)" by (simp add: prefix_def)
        with False show ?thesis by simp
      next
        case (Cons x a')
        with ab have "cs = a' @ needle @ b" by simp
        then show ?thesis by blast
      qed
    next
      assume "\<exists>a b. cs = a @ needle @ b"
      then obtain a b where "cs = a @ needle @ b" by blast
      then have "c # cs = (c # a) @ needle @ b" by simp
      then show "\<exists>a b. c # cs = a @ needle @ b" by blast
    qed
    with False Cons.IH show ?thesis by simp
  qed
qed

lemma fields_no_space: "\<forall>x\<in>set s. \<not> isspace x \<Longrightarrow> fields s = [s]"
  by (induction s) auto

lemma fields_append_space:
  "\<forall>x\<in>set a. \<not> isspace x \<Longrightarrow> isspace d \<Longrightarrow> fields (a @ d # ds) = a # fields ds"
  by (induction a) auto

lemma tokens_dropWhile_space: "tokens (dropWhile isspace s) = tokens s"
  by (induction s) (auto simp: tokens_def)

lemma tokens_all_space: "\<forall>x\<in>set s. isspace x \<Longrightarrow> tokens s = []"
  by (induction s) (auto simp: tokens_def)

lemma tokens_run:
  assumes "s \<noteq> []" "\<not> isspace (hd s)"
  shows "tokens s = takeWhile (\<lambda>c. \<not> isspace c) s # tokens (dropWhile (\<lambda>c. \<not> isspace c) s)"
proof -
  define a where "a = takeWhile (\<lambda>c. \<not> isspace c) s"
  define r where "r = dropWhile (\<lambda>c. \<not> isspace c) s"
  have s: "s = a @ r" by (simp add: a_def r_def)
  have a: "\<forall>x\<in>set a. \<not> isspace x" unfolding a_def by (auto dest: set_takeWhileD)
  from assms have ne: "a \<noteq> []" unfolding a_def by (cases s) auto
  have "tokens (a @ r) = a # tokens r"
  proof (cases r)
    case Nil
    with a ne show ?thesis by (simp add: tokens_def fields_no_space)
  next
    case (Cons d ds)
    then have "isspace d"
      using hd_dropWhile [of "\<lambda>c. \<not> isspace c" s] unfolding r_def by force
    with a ne Cons show ?thesis by (simp add: tokens_def fields_append_space)
  qed
  then show ?thesis unfolding s [symmetric] unfolding a_def r_def .
qed

lemma scan_str_tokens:
  "scan_str None s =
     (case tokens s of [] \<Rightarrow> None
      | t # ts \<Rightarrow> Some (t, dropWhile (\<lambda>c. \<not> isspace c) (dropWhile isspace s)))"
proof (cases "dropWhile isspace s = []")
  case True
  then have "tokens s = []" by (simp add: tokens_all_space)
  moreover have "scan_str None s = None" unfolding scan_str_def True by simp
  ultimately show ?thesis by simp
next
  case False
  define s' where "s' = dropWhile isspace s"
  from False have ne: "s' \<noteq> []" by (simp add: s'_def)
  then have ns: "\<not> isspace (hd s')" unfolding s'_def using hd_dropWhile [of isspace s] by blast
  have t: "tokens s = takeWhile (\<lambda>c. \<not> isspace c) s' # tokens (dropWhile (\<lambda>c. \<not> isspace c) s')"
    using tokens_run [OF ne ns] tokens_dropWhile_space [of s] by (simp add: s'_def)
  from ne ns have run: "takeWhile (\<lambda>c. \<not> isspace c) s' \<noteq> []" by (cases s') auto
  have "scan_str None s = Some (takeWhile (\<lambda>c. \<not> isspace c) s', dropWhile (\<lambda>c. \<not> isspace c) s')"
    using run unfolding scan_str_def s'_def [symmetric] Let_def
    by (simp add: dropWhile_eq_drop [symmetric])
  with t show ?thesis by (simp add: s'_def)
qed

lemma tokens_tail:
  "tokens s = t # ts \<Longrightarrow> tokens (dropWhile (\<lambda>c. \<not> isspace c) (dropWhile isspace s)) = ts"
proof -
  assume a: "tokens s = t # ts"
  define s' where "s' = dropWhile isspace s"
  have "s' \<noteq> []" using a tokens_all_space [of s] unfolding s'_def by auto
  then have ns: "\<not> isspace (hd s')" unfolding s'_def using hd_dropWhile [of isspace s] by blast
  have "tokens s = takeWhile (\<lambda>c. \<not> isspace c) s' # tokens (dropWhile (\<lambda>c. \<not> isspace c) s')"
    using tokens_run [OF \<open>s' \<noteq> []\<close> ns] tokens_dropWhile_space [of s] by (simp add: s'_def)
  with a show ?thesis by (simp add: s'_def)
qed

lemma sscanf_s_s_tokens:
  "sscanf_s_s inp method path =
     (case tokens inp of
        [] \<Rightarrow> (- 1, method, path)
      | [t] \<Rightarrow> (1, t, path)
      | t # u # ts \<Rightarrow> (2, t, u))"
proof (cases "tokens inp")
  case Nil
  then show ?thesis by (simp add: sscanf_s_s_def scan_str_tokens)
next
  case (Cons t ts)
  have "tokens (dropWhile isspace (dropWhile (\<lambda>c. \<not> isspace c) (dropWhile isspace inp))) = ts"
    using tokens_tail [OF Cons] by (simp add: tokens_dropWhile_space)
  with Cons show ?thesis
    by (cases ts) (simp_all add: sscanf_s_s_def scan_str_tokens)
qed

lemma fields_not_Nil: "fields s \<noteq> []"
  by (induction s) (auto split: list.splits)

lemma fields_append_at_space: "isspace d \<Longrightarrow> fields (a @ d # b) = fields a @ fields b"
proof (induction a)
  case Nil
  then show ?case by simp
next
  case (Cons c a)
  then show ?case
    using fields_not_Nil [of a] by (cases "fields a") auto
qed

lemma tokens_append_at_space: "isspace d \<Longrightarrow> tokens (a @ d # b) = tokens a @ tokens b"
  by (simp add: tokens_def fields_append_at_space)

lemma first_line_split:
  "strstr s CRLF \<noteq> None \<Longrightarrow> s = first_line s @ CRLF @ after_first_line s"
proof (induction s)
  case Nil
  then show ?case by (simp add: CRLF_def)
next
  case (Cons c cs)
  show ?case
  proof (cases "prefix CRLF (c # cs)")
    case True
    then show ?thesis by (auto simp: prefix_def after_first_line_def CRLF_def)
  next
    case False
    with Cons show ?thesis by (simp add: after_first_line_def)
  qed
qed

lemma tokens_lines:
  assumes "strstr s CRLF \<noteq> None"
  shows "tokens s = tokens (first_line s) @ tokens (after_first_line s)"
proof -
  have "tokens s = tokens (first_line s @ CR # LF # after_first_line s)"
    using first_line_split [OF assms] by (simp add: CRLF_def)
  also have "\<dots> = tokens (first_line s) @ tokens (LF # after_first_line s)"
    by (rule tokens_append_at_space) (simp add: isspace_def)
  also have "tokens (LF # after_first_line s) = tokens ([] @ LF # after_first_line s)" by simp
  also have "\<dots> = tokens [] @ tokens (after_first_line s)"
    by (rule tokens_append_at_space) (simp add: isspace_def)
  finally show ?thesis by (simp add: tokens_def)
qed

lemma parse_request_ret:
  "ret (parse_request raw method path body) =
     (case strstr (c_str raw) CRLF of None \<Rightarrow> - 1 | Some line_end \<Rightarrow> 0)"
  by (simp add: parse_request_def split: option.splits prod.splits)

lemma parse_request_path:
  "strstr (c_str raw) CRLF \<noteq> None \<Longrightarrow>
     p_path (parse_request raw method path body) =
       (case tokens (c_str raw) of t # u # ts \<Rightarrow> u | _ \<Rightarrow> path)"
  by (auto simp: parse_request_def sscanf_s_s_tokens split: option.splits prod.splits list.splits)

lemma parse_request_method:
  "strstr (c_str raw) CRLF \<noteq> None \<Longrightarrow>
     p_method (parse_request raw method path body) =
       (case tokens (c_str raw) of t # ts \<Rightarrow> t | [] \<Rightarrow> method)"
  by (auto simp: parse_request_def sscanf_s_s_tokens split: option.splits prod.splits list.splits)

section \<open>Lemmas about the connection table\<close>

lemma find_free_slot_from_full:
  "\<forall>j<MAX_CONNECTIONS. i \<le> j \<longrightarrow> active (conns ! j) \<noteq> 0 \<Longrightarrow> find_free_slot_from conns i = - 1"
proof (induction conns i rule: find_free_slot_from.induct)
  case (1 conns i)
  show ?case
  proof (cases "i < MAX_CONNECTIONS")
    case True
    with "1.prems" have act: "active (conns ! i) \<noteq> 0" by simp
    from "1.prems" have "\<forall>j<MAX_CONNECTIONS. i + 1 \<le> j \<longrightarrow> active (conns ! j) \<noteq> 0" by simp
    with "1.IH" True act have "find_free_slot_from conns (i + 1) = - 1" by blast
    with True act show ?thesis by (simp add: find_free_slot_from.simps [of conns i])
  next
    case False
    then show ?thesis by (simp add: find_free_slot_from.simps [of conns i])
  qed
qed

lemma find_free_slot_from_found:
  "0 \<le> find_free_slot_from conns i \<Longrightarrow>
     nat (find_free_slot_from conns i) < MAX_CONNECTIONS
     \<and> active (conns ! nat (find_free_slot_from conns i)) = 0"
proof (induction conns i rule: find_free_slot_from.induct)
  case (1 conns i)
  show ?case
  proof (cases "i < MAX_CONNECTIONS")
    case True
    show ?thesis
    proof (cases "active (conns ! i) = 0")
      case free: True
      with True show ?thesis by (simp add: find_free_slot_from.simps [of conns i])
    next
      case False
      with True have eq: "find_free_slot_from conns i = find_free_slot_from conns (i + 1)"
        by (simp add: find_free_slot_from.simps [of conns i])
      with "1.prems" "1.IH" True False show ?thesis by simp
    qed
  next
    case False
    with "1.prems" show ?thesis by (simp add: find_free_slot_from.simps [of conns i])
  qed
qed

lemma find_free_slot_found:
  "0 \<le> find_free_slot conns \<Longrightarrow>
     nat (find_free_slot conns) < MAX_CONNECTIONS \<and> active (conns ! nat (find_free_slot conns)) = 0"
  unfolding find_free_slot_def by (rule find_free_slot_from_found)

lemma close_all_from_length:
  "length (connections (close_all_from s i)) = length (connections s)"
proof (induction s i rule: close_all_from.induct)
  case (1 s i)
  show ?case
  proof (cases "i < MAX_CONNECTIONS")
    case True
    show ?thesis
    proof (cases "active (connections s ! i) \<noteq> 0")
      case act: True
      with True "1.IH"(1) show ?thesis by (simp add: close_all_from.simps [of s i])
    next
      case False
      with True "1.IH"(2) show ?thesis by (simp add: close_all_from.simps [of s i])
    qed
  next
    case False
    then show ?thesis by (simp add: close_all_from.simps [of s i])
  qed
qed

lemma close_all_from_frame:
  "conn_count (close_all_from s i) = conn_count s \<and> workers (close_all_from s i) = workers s"
proof (induction s i rule: close_all_from.induct)
  case (1 s i)
  show ?case
  proof (cases "i < MAX_CONNECTIONS")
    case True
    show ?thesis
    proof (cases "active (connections s ! i) \<noteq> 0")
      case act: True
      with True "1.IH"(1) show ?thesis by (simp add: close_all_from.simps [of s i])
    next
      case False
      with True "1.IH"(2) show ?thesis by (simp add: close_all_from.simps [of s i])
    qed
  next
    case False
    then show ?thesis by (simp add: close_all_from.simps [of s i])
  qed
qed

lemma inactive_update: "active (c :: Connection) = 0 \<Longrightarrow> c\<lparr>active := 0\<rparr> = c"
  by (cases c) simp

lemma close_all_from_nth:
  "j < length (connections s) \<Longrightarrow>
     connections (close_all_from s i) ! j =
       (if i \<le> j \<and> j < MAX_CONNECTIONS then (connections s ! j)\<lparr>active := 0\<rparr>
        else connections s ! j)"
proof (induction s i arbitrary: j rule: close_all_from.induct)
  case (1 s i)
  show ?case
  proof (cases "i < MAX_CONNECTIONS")
    case True
    show ?thesis
    proof (cases "active (connections s ! i) \<noteq> 0")
      case act: True
      let ?s' = "s\<lparr>closed := closed s @ [socket (connections s ! i)],
                  connections := (connections s)[i := (connections s ! i)\<lparr>active := 0\<rparr>]\<rparr>"
      have "j < length (connections ?s')" using "1.prems" by simp
      from "1.IH"(1) [OF True act this]
      have "connections (close_all_from ?s' (i + 1)) ! j =
              (if i + 1 \<le> j \<and> j < MAX_CONNECTIONS then (connections ?s' ! j)\<lparr>active := 0\<rparr>
               else connections ?s' ! j)" .
      moreover have "close_all_from s i = close_all_from ?s' (i + 1)"
        using True act by (simp add: close_all_from.simps [of s i])
      ultimately show ?thesis using "1.prems" True
        by (cases "j = i") (auto simp: nth_list_update)
    next
      case False
      then have inact: "active (connections s ! i) = 0" by simp
      from "1.IH"(2) [OF True _ "1.prems"] False
      have "connections (close_all_from s (i + 1)) ! j =
              (if i + 1 \<le> j \<and> j < MAX_CONNECTIONS then (connections s ! j)\<lparr>active := 0\<rparr>
               else connections s ! j)" by simp
      moreover have "close_all_from s i = close_all_from s (i + 1)"
        using True False by (simp add: close_all_from.simps [of s i])
      ultimately show ?thesis using inactive_update [OF inact]
        by (cases "j = i") auto
    qed
  next
    case False
    then show ?thesis by (simp add: close_all_from.simps [of s i])
  qed
qed

lemma close_all_connections_nth:
  "length (connections s) = MAX_CONNECTIONS \<Longrightarrow> j < MAX_CONNECTIONS \<Longrightarrow>
     connections (close_all_connections s) ! j = (connections s ! j)\<lparr>active := 0\<rparr>"
  by (simp add: close_all_connections_def close_all_from_nth)

lemma close_all_connections_active_count:
  assumes "length (connections s) = MAX_CONNECTIONS"
  shows "active_count (close_all_connections s) = 0"
proof -
  have len: "length (connections (close_all_connections s)) = MAX_CONNECTIONS"
    using assms by (simp add: close_all_connections_def close_all_from_length)
  have "\<forall>c\<in>set (connections (close_all_connections s)). active c = 0"
  proof
    fix c assume "c \<in> set (connections (close_all_connections s))"
    then obtain j where "j < MAX_CONNECTIONS" "c = connections (close_all_connections s) ! j"
      using len by (auto simp: in_set_conv_nth)
    then show "active c = 0" using assms by (simp add: close_all_connections_nth)
  qed
  then show ?thesis by (simp add: active_count_def)
qed

lemma length_filter_update:
  "i < length xs \<Longrightarrow>
     length (filter P (xs[i := y])) + (if P (xs ! i) then 1 else 0)
       = length (filter P xs) + (if P y then 1 else 0)"
proof (induction xs arbitrary: i)
  case Nil
  then show ?case by simp
next
  case (Cons x xs)
  then show ?case by (cases i) auto
qed

lemma active_count_activate:
  assumes "i < length (connections s)" "active (connections s ! i) = 0" "active c \<noteq> 0"
  shows "active_count (s\<lparr>connections := (connections s)[i := c]\<rparr>) = active_count s + 1"
  using length_filter_update [OF assms(1), of "\<lambda>c. active c \<noteq> 0" c] assms(2,3)
  by (simp add: active_count_def)

lemma active_count_deactivate:
  assumes "i < length (connections s)" "active (connections s ! i) \<noteq> 0" "active c = 0"
  shows "active_count (s\<lparr>connections := (connections s)[i := c]\<rparr>) + 1 = active_count s"
  using length_filter_update [OF assms(1), of "\<lambda>c. active c \<noteq> 0" c] assms(2,3)
  by (simp add: active_count_def)

lemma registry_inv_init: "registry_inv init_state"
  by (simp add: registry_inv_def init_state_def active_count_def zero_connection_def)

lemma registry_inv_accept:
  assumes "registry_inv s"
  shows "registry_inv (snd (accept_connection s client_socket peer))"
proof (cases "client_socket < 0 \<or> find_free_slot (connections s) < 0")
  case True
  with assms show ?thesis
    by (auto simp: accept_connection_def Let_def registry_inv_def active_count_def)
next
  case False
  define i where "i = nat (find_free_slot (connections s))"
  define c where "c = (connections s ! i)\<lparr>socket := client_socket, client_ip := Some peer,
                      authenticated := 0, thread := spawned s, active := 1\<rparr>"
  from False have i: "i < MAX_CONNECTIONS" "active (connections s ! i) = 0"
    using find_free_slot_found [of "connections s"] by (simp_all add: i_def)
  from assms have len: "length (connections s) = MAX_CONNECTIONS" by (simp add: registry_inv_def)
  have conns: "connections (snd (accept_connection s client_socket peer)) = (connections s)[i := c]"
    and cnt: "conn_count (snd (accept_connection s client_socket peer)) = conn_count s + 1"
    and wrk: "workers (snd (accept_connection s client_socket peer)) = workers s @ [i]"
    using False by (simp_all add: accept_connection_def Let_def i_def c_def)
  have ac: "active_count (snd (accept_connection s client_socket peer)) = active_count s + 1"
    using active_count_activate [of i s c] i len conns
    by (simp add: active_count_def c_def)
  have notin: "i \<notin> set (workers s)" using assms i by (simp add: registry_inv_def)
  have "set (workers s @ [i]) = {j. j < MAX_CONNECTIONS \<and> active ((connections s)[i := c] ! j) \<noteq> 0}"
    using assms i len by (auto simp: registry_inv_def nth_list_update c_def)
  with assms len cnt ac notin show ?thesis
    by (simp add: registry_inv_def conns wrk)
qed

lemma registry_inv_worker_exit:
  assumes "registry_inv s" "slot \<in> set (workers s)"
  shows "registry_inv (worker_cleanup s slot)"
proof -
  define c where "c = (connections s ! slot)\<lparr>active := 0, client_ip := None\<rparr>"
  from assms have len: "length (connections s) = MAX_CONNECTIONS"
    and slot: "slot < MAX_CONNECTIONS" "active (connections s ! slot) \<noteq> 0"
    by (auto simp: registry_inv_def)
  have conns: "connections (worker_cleanup s slot) = (connections s)[slot := c]"
    by (simp add: worker_cleanup_def c_def)
  have "active_count (worker_cleanup s slot) + 1 = active_count s"
    using active_count_deactivate [of slot s c] slot len
    by (simp add: active_count_def conns c_def)
  then have cnt: "conn_count (worker_cleanup s slot) = int (active_count (worker_cleanup s slot))"
    using assms(1) by (simp add: registry_inv_def worker_cleanup_def)
  have "set (remove1 slot (workers s))
          = {j. j < MAX_CONNECTIONS \<and> active ((connections s)[slot := c] ! j) \<noteq> 0}"
    using assms(1) slot len by (auto simp: registry_inv_def nth_list_update c_def)
  with assms(1) len cnt show ?thesis
    by (simp add: registry_inv_def conns) (simp add: worker_cleanup_def)
qed

lemma registry_inv_step:
  "registry_inv s \<Longrightarrow> op \<noteq> CloseAll \<Longrightarrow> registry_inv (registry_step s op)"
  by (cases op) (simp_all add: registry_inv_accept registry_inv_worker_exit)

lemma registry_inv_run:
  "registry_inv s \<Longrightarrow> no_close_all ops \<Longrightarrow> registry_inv (run_ops s ops)"
  unfolding run_ops_def no_close_all_def
  by (induction ops arbitrary: s) (simp_all add: registry_inv_step)

section \<open>Lemmas about the worker\<close>

lemma one_client_slot0:
  "active (connections one_client ! 0) = 1" "socket (connections one_client ! 0) = 5"
  "sent one_client = []" "closed one_client = []" "conn_count one_client = 1"
  "workers one_client = [0]"
  by (simp_all add: one_client_def accept_connection_def init_state_def zero_connection_def
      find_free_slot_def find_free_slot_from.simps [of _ 0] MAX_CONNECTIONS_def Let_def)

lemma one_client_length: "length (connections one_client) = MAX_CONNECTIONS"
  by (simp add: one_client_def accept_connection_def init_state_def
      find_free_slot_def find_free_slot_from.simps [of _ 0] MAX_CONNECTIONS_def Let_def)

lemma c_str_append_NULs: "c_str (data @ replicate k NUL) = c_str data"
  by (induction data) (simp_all add: c_str_def)

lemma c_str_recv_buffer: "c_str (recv_buffer input) = c_str (take RECV_BUFFER_SIZE input)"
  by (simp add: recv_buffer_def c_str_append_NULs)

lemma recv_buffer_hello:
  "recv_buffer ''hello'' = ''hello'' @ replicate 2043 NUL"
  by (simp add: recv_buffer_def RECV_BUFFER_SIZE_def)

lemma take_long_body_request:
  "take RECV_BUFFER_SIZE long_body_request = long_body_request"
  by (simp add: long_body_request_def RECV_BUFFER_SIZE_def CRLF_def)

lemma p_body_long_body_request:
  "p_body (parse_request (recv_buffer long_body_request) [] [] []) = replicate 1024 (CHR ''A'')"
proof -
  have c: "c_str (recv_buffer long_body_request) = long_body_request"
    by (simp add: c_str_recv_buffer take_long_body_request)
       (simp add: c_str_def long_body_request_def CRLF_def)
  show ?thesis
    unfolding parse_request_def c
    by (simp add: long_body_request_def CRLF_def sscanf_s_s_def scan_str_def isspace_def)
qed

lemma digit_char_digit: "d < 10 \<Longrightarrow> is_digit (digit_char d) \<and> (of_char (digit_char d) :: nat) = 48 + d"
  by (simp add: is_digit_def digit_char_def)

lemma read_dec_append:
  "\<forall>c\<in>set xs. is_digit c \<Longrightarrow> read_dec (xs @ r) acc = read_dec r (read_dec xs acc)"
  by (induction xs arbitrary: acc) simp_all

lemma read_dec_dec_nat:
  "(\<forall>c\<in>set (dec_nat n). is_digit c)
   \<and> read_dec (dec_nat n) acc = acc * 10 ^ length (dec_nat n) + n"
proof (induction n arbitrary: acc rule: dec_nat.induct)
  case (1 n)
  show ?case
  proof (cases "n < 10")
    case True
    then show ?thesis
      using digit_char_digit [of n] by (simp add: dec_nat.simps [of n])
  next
    case False
    have d: "is_digit (digit_char (n mod 10))" "(of_char (digit_char (n mod 10)) :: nat) = 48 + n mod 10"
      using digit_char_digit [of "n mod 10"] by simp_all
    from "1.IH" [OF False] have ds: "\<forall>c\<in>set (dec_nat (n div 10)). is_digit c"
      and rd: "\<And>acc. read_dec (dec_nat (n div 10)) acc = acc * 10 ^ length (dec_nat (n div 10)) + n div 10"
      by simp_all
    have eq: "dec_nat n = dec_nat (n div 10) @ [digit_char (n mod 10)]"
      using False by (simp add: dec_nat.simps [of n])
    have "read_dec (dec_nat n) acc = 10 * (acc * 10 ^ length (dec_nat (n div 10)) + n div 10) + n mod 10"
      unfolding eq using d by (simp add: read_dec_append [OF ds] rd)
    also have "\<dots> = acc * 10 ^ length (dec_nat n) + n"
      unfolding eq by (simp add: algebra_simps)
    finally show ?thesis using ds d unfolding eq by simp
  qed
qed

lemma read_dec_dec_nat_CR: "read_dec (dec_nat n @ CR # rest) 0 = n"
proof -
  have "read_dec (dec_nat n @ CR # rest) 0 = read_dec (CR # rest) (read_dec (dec_nat n) 0)"
    using read_dec_dec_nat [of n 0] by (simp add: read_dec_append)
  also have "\<dots> = n"
    using read_dec_dec_nat [of n 0] by (simp add: is_digit_def)
  finally show ?thesis .
qed

lemma content_length_file_response:
  "content_length (''HTTP/1.1 200 OK'' @ CRLF @ ''Content-Length: '' @ dec_nat n @ CRLF @ CRLF @ body)
     = Some n"
  by (simp add: content_length_def CRLF_def read_dec_dec_nat_CR)

lemma dec_nat_2047: "dec_nat 2047 = ''2047''"
  by code_simp

lemma active_count_zero_iff: "active_count s = 0 \<longleftrightarrow> (\<forall>c\<in>set (connections s). active c = 0)"
  by (auto simp: active_count_def filter_empty_conv)

lemma close_all_then_exit:
  assumes "length (connections s) = MAX_CONNECTIONS" and "slot \<in> set (workers s)"
  shows "conn_count (run_ops s [CloseAll, WorkerExit slot]) = - 1"
    and "active_count (run_ops s [CloseAll, WorkerExit slot]) = 0"
proof -
  let ?s2 = "close_all_connections s"
  have w: "slot \<in> set (workers ?s2)"
    using assms(2) by (simp add: close_all_connections_def close_all_from_frame)
  have c: "conn_count ?s2 = 0" by (simp add: close_all_connections_def)
  have a: "\<forall>c\<in>set (connections ?s2). active c = 0"
    using close_all_connections_active_count [OF assms(1)] by (simp add: active_count_zero_iff)
  have r: "run_ops s [CloseAll, WorkerExit slot] = worker_cleanup ?s2 slot"
    using w by (simp add: run_ops_def)
  show "conn_count (run_ops s [CloseAll, WorkerExit slot]) = - 1"
    unfolding r using c by (simp add: worker_cleanup_def)
  have "set (connections (worker_cleanup ?s2 slot))
          \<subseteq> insert ((connections ?s2 ! slot)\<lparr>active := 0, client_ip := None\<rparr>) (set (connections ?s2))"
    by (simp add: worker_cleanup_def set_update_subset_insert)
  with a have "\<forall>c\<in>set (connections (worker_cleanup ?s2 slot)). active c = 0" by auto
  then show "active_count (run_ops s [CloseAll, WorkerExit slot]) = 0"
    unfolding r by (simp add: active_count_zero_iff)
qed

lemma length_user63: "length user63 = 63"
  by (simp add: user63_def)

lemma length_login_body: "length login_body = 82"
  by (simp add: login_body_def length_user63)

lemma c_str_login_request: "c_str (recv_buffer login_request) = login_request"
  by (simp add: c_str_recv_buffer)
     (simp add: login_request_def login_body_def user63_def CRLF_def RECV_BUFFER_SIZE_def c_str_def)

lemma parse_login_request:
  "parse_request (recv_buffer login_request) [] [] [] =
     \<lparr>ret = 0, p_method = ''POST'', p_path = ''/login'',
      p_body = login_body\<rparr>"
  unfolding parse_request_def c_str_login_request
  by (simp add: login_request_def CRLF_def sscanf_s_s_def scan_str_def isspace_def)

lemma sscanf_login_body:
  "sscanf_user_pass login_body = Some (user63, ''admin123'')"
  by (simp add: sscanf_user_pass_def match_lit_def scan_str_def isspace_def user63_def login_body_def)

lemma handle_login_request:
  "handle_request one_client 0 ''POST'' ''/login'' login_body =
     Inr (Some (''HTTP/1.1 200 OK'' @ CRLF @ CRLF @ ''Login successful''),
          one_client
            \<lparr>printed := printed one_client @ [''Login attempt: '' @ user63 @ '' / admin123'' @ [LF]],
             connections := (connections one_client)[0 :=
               (connections one_client ! 0)\<lparr>authenticated := 1, username := user63\<rparr>]\<rparr>)"
  by (simp add: handle_request_def sscanf_login_body Let_def length_user63)

lemma worker_iter_login:
  "worker_iter one_client 0 (Bytes login_request) = Inr (Reading, logged_in)"
proof -
  have n: "NUL \<in> set (recv_buffer login_request)"
    by (simp add: recv_buffer_def login_request_def login_body_def length_user63 CRLF_def RECV_BUFFER_SIZE_def)
  have t: "take RECV_BUFFER_SIZE login_request \<noteq> []"
    by (simp add: login_request_def RECV_BUFFER_SIZE_def)
  have s: "socket (connections one_client ! 0) = 5" "sent one_client = []"
    by (simp_all add: one_client_slot0)
  have l: "0 < length (connections one_client)"
    by (simp add: one_client_length MAX_CONNECTIONS_def)
  show ?thesis
    using n t l
    by (simp add: worker_iter_def one_client_slot0 parse_login_request handle_login_request
        bytes_written_def length_user63 logged_in_def length_login_body)
qed

lemma logged_in_slot0: "active (connections logged_in ! 0) = 1"
  using one_client_length
  by (simp add: logged_in_def one_client_slot0 MAX_CONNECTIONS_def)

lemma handle_connection_login_then_close:
  "handle_connection one_client 0 [Bytes login_request, RecvError] = Inr (Closed, stale_state)"
  by (simp add: worker_iter_login stale_state_def)
     (simp add: worker_iter_def logged_in_slot0)

lemma stale_state_slot0:
  "length (connections stale_state) = MAX_CONNECTIONS"
  "active (connections stale_state ! 0) = 0"
  "authenticated (connections stale_state ! 0) = 1"
  "username (connections stale_state ! 0) = user63"
  using one_client_length
  by (simp_all add: stale_state_def worker_cleanup_def logged_in_def MAX_CONNECTIONS_def)

lemma accept_stale_state:
  "fst (accept_connection stale_state 7 ''10.0.0.9'') = 0"
  by (simp add: accept_connection_def find_free_slot_def find_free_slot_from.simps [of _ 0]
      stale_state_slot0 MAX_CONNECTIONS_def Let_def)

section \<open>The claims\<close>

text \<open>
  C1.  When all \<open>MAX_CONNECTIONS\<close> slots are active and \<open>accept\<close> has returned a
  descriptor, \<open>accept_connection\<close> finds no free slot, closes the new descriptor,
  returns \<open>-1\<close> and leaves the table and \<open>conn_count\<close> as they were.
\<close>

theorem accept_connection_full:
  assumes "\<forall>i<MAX_CONNECTIONS. active (connections s ! i) \<noteq> 0" and "0 \<le> client_socket"
  shows "accept_connection s client_socket peer = (- 1, s\<lparr>closed := closed s @ [client_socket]\<rparr>)
    \<and> find_free_slot (connections s) = - 1
    \<and> connections (snd (accept_connection s client_socket peer)) = connections s
    \<and> conn_count (snd (accept_connection s client_socket peer)) = conn_count s
    \<and> closed (snd (accept_connection s client_socket peer)) = closed s @ [client_socket]"
proof -
  from assms(1) have "find_free_slot (connections s) = - 1"
    unfolding find_free_slot_def by (intro find_free_slot_from_full) simp
  with assms(2) show ?thesis by (simp add: accept_connection_def)
qed

theorem accept_connection_full_witness:
  "\<not> (\<exists>i<MAX_CONNECTIONS. active (connections full_state ! i) = 0)
   \<and> accept_connection full_state 7 ''10.0.0.9'' = (- 1, full_state\<lparr>closed := [7]\<rparr>)"
proof -
  have h: "\<forall>i<MAX_CONNECTIONS. active (connections full_state ! i) \<noteq> 0"
    by (simp add: full_state_def init_state_def)
  have c: "closed full_state = []" by (simp add: full_state_def init_state_def)
  show ?thesis
    using h c accept_connection_full [OF h, of 7 "''10.0.0.9''"] by simp
qed

text \<open>
  C2, which says that \<open>conn_count\<close> equals the number of active slots in every
  reachable state.  The run below is one the server can make: a connection is accepted,
  \<open>close_all_connections\<close> deactivates its slot and sets the counter to 0, and the
  worker, whose \<open>recv\<close> now fails, runs its clean-up block and decrements the counter
  again.  No slot is active and \<open>conn_count\<close> is \<open>-1\<close>.
\<close>

theorem conn_count_negative_after_close_all:
  "conn_count (run_ops init_state [Accept 5 ''10.0.0.1'', CloseAll, WorkerExit 0]) = - 1
   \<and> active_count (run_ops init_state [Accept 5 ''10.0.0.1'', CloseAll, WorkerExit 0]) = 0"
proof -
  have "run_ops init_state [Accept 5 ''10.0.0.1'', CloseAll, WorkerExit 0]
          = run_ops one_client [CloseAll, WorkerExit 0]"
    by (simp add: run_ops_def one_client_def)
  moreover have "0 \<in> set (workers one_client)" by (simp add: one_client_slot0)
  ultimately show ?thesis
    using close_all_then_exit [OF one_client_length, of 0] by simp
qed

text \<open>
  C3, which says that the body copied by \<open>parse_request\<close> is cut to the 1024 bytes of
  the caller's array.  For a received buffer of 1040 bytes with a body of 1024 bytes,
  \<open>strcpy\<close> stores 1025 bytes; the worker's array holds 1024.
\<close>

theorem worker_iter_body_overflow:
  "length long_body_request \<le> RECV_BUFFER_SIZE
   \<and> bytes_written (p_body (parse_request (recv_buffer long_body_request) [] [] [])) = 1025
   \<and> worker_iter one_client 0 (Bytes long_body_request) = Inl BufferOverflow"
proof -
  have l: "length long_body_request = 1040"
    by (simp add: long_body_request_def CRLF_def)
  have n: "NUL \<in> set (recv_buffer long_body_request)"
    by (simp add: recv_buffer_def take_long_body_request l) (simp add: RECV_BUFFER_SIZE_def)
  have t: "take RECV_BUFFER_SIZE long_body_request \<noteq> []"
    by (simp add: take_long_body_request) (simp add: long_body_request_def)
  have r: "ret (parse_request (recv_buffer long_body_request) [] [] []) = 0"
    by (simp add: parse_request_ret c_str_recv_buffer take_long_body_request)
       (simp add: c_str_def long_body_request_def CRLF_def)
  have b: "bytes_written (p_body (parse_request (recv_buffer long_body_request) [] [] [])) = 1025"
    by (simp add: p_body_long_body_request bytes_written_def)
  have "worker_iter one_client 0 (Bytes long_body_request) = Inl BufferOverflow"
    using n t r b by (simp add: worker_iter_def one_client_slot0 Let_def)
  with l b show ?thesis by (simp add: RECV_BUFFER_SIZE_def)
qed

text \<open>
  C4, as stated: when \<open>parse_request\<close> fails the worker sends an error response and
  goes on reading.  For the received bytes \<open>hello\<close> the worker goes on reading, and the
  state, with its empty list of sent messages, is unchanged.
\<close>

theorem worker_iter_no_error_response_counterexample:
  "ret (parse_request (recv_buffer ''hello'') [] [] []) = - 1
   \<and> worker_iter one_client 0 (Bytes ''hello'') = Inr (Reading, one_client)
   \<and> sent one_client = []"
proof -
  have c: "c_str (recv_buffer ''hello'') = ''hello''"
    by (simp add: c_str_recv_buffer RECV_BUFFER_SIZE_def) (simp add: c_str_def)
  have r: "ret (parse_request (recv_buffer ''hello'') [] [] []) = - 1"
    by (simp add: parse_request_ret c CRLF_def)
  have n: "NUL \<in> set (recv_buffer ''hello'')"
    by (simp add: recv_buffer_hello)
  have "worker_iter one_client 0 (Bytes ''hello'') = Inr (Reading, one_client)"
    using r n by (simp add: worker_iter_def one_client_slot0 RECV_BUFFER_SIZE_def)
  with r show ?thesis by (simp add: one_client_slot0)
qed

text \<open>
  C4, amended: when \<open>parse_request\<close> fails on a received, NUL-terminated buffer, the
  worker does not close the connection: it skips the dispatch, sends nothing, changes
  nothing in the state and is back at the head of its loop, where the rest of
  \<open>handle_connection\<close> goes on with the next \<open>recv\<close>.
\<close>

theorem worker_iter_parse_failure:
  assumes "active (connections s ! slot) \<noteq> 0"
    and "input \<noteq> []"
    and "NUL \<in> set (recv_buffer input)"
    and "ret (parse_request (recv_buffer input) [] [] []) = - 1"
  shows "worker_iter s slot (Bytes input) = Inr (Reading, s)
    \<and> handle_connection s slot (Bytes input # rs) = handle_connection s slot rs"
proof -
  from assms(2) have "take RECV_BUFFER_SIZE input \<noteq> []"
    by (simp add: RECV_BUFFER_SIZE_def)
  with assms(1,3,4) have "worker_iter s slot (Bytes input) = Inr (Reading, s)"
    by (simp add: worker_iter_def Let_def)
  then show ?thesis by simp
qed

theorem worker_iter_parse_failure_witness:
  "active (connections one_client ! 0) \<noteq> 0
   \<and> NUL \<in> set (recv_buffer ''hello'')
   \<and> ret (parse_request (recv_buffer ''hello'') [] [] []) = - 1
   \<and> handle_connection one_client 0 [Bytes ''hello''] = Inr (Reading, one_client)"
proof -
  have a: "active (connections one_client ! 0) \<noteq> 0" by (simp add: one_client_slot0)
  have i: "''hello'' \<noteq> []" by simp
  have n: "NUL \<in> set (recv_buffer ''hello'')" by (simp add: recv_buffer_hello)
  have c: "c_str (recv_buffer ''hello'') = ''hello''"
    by (simp add: c_str_recv_buffer RECV_BUFFER_SIZE_def) (simp add: c_str_def)
  have r: "ret (parse_request (recv_buffer ''hello'') [] [] []) = - 1"
    by (simp add: parse_request_ret c CRLF_def)
  show ?thesis
    using a n r worker_iter_parse_failure [OF a i n r, of "[]"] by simp
qed

text \<open>
  C5, as stated: \<open>parse_request\<close> either returns \<open>-1\<close> or yields a path that starts
  with \<open>/\<close>.  It fails on the buffer \<open>GET foo\r\n\<close>, which is accepted with the path
  \<open>foo\<close>.
\<close>

theorem parse_request_path_slash_counterexample:
  "\<not> (ret (parse_request (''GET foo'' @ CRLF) [] [] []) = - 1
      \<or> take 1 (p_path (parse_request (''GET foo'' @ CRLF) [] [] [])) = ''/'')"
  by (simp add: parse_request_def CRLF_def c_str_def sscanf_s_s_def scan_str_def isspace_def)

text \<open>
  C5, amended: \<open>parse_request\<close> either returns \<open>-1\<close> or returns \<open>0\<close> with the path
  buffer holding the second white-space-delimited token of the buffer, whatever its first
  character; when the buffer has fewer than two tokens the path buffer keeps the
  caller's contents.
\<close>

theorem parse_request_path_second_token:
  "ret (parse_request raw method path body) = - 1
   \<or> (ret (parse_request raw method path body) = 0
      \<and> p_path (parse_request raw method path body) =
          (case tokens (c_str raw) of t # u # ts \<Rightarrow> u | _ \<Rightarrow> path))"
  by (cases "strstr (c_str raw) CRLF") (simp_all add: parse_request_ret parse_request_path)

text \<open>
  C6, as stated: a buffer whose first line has fewer than two tokens is rejected with
  \<open>-1\<close>.  It fails on the buffer \<open>GET\r\n\<close>.
\<close>

theorem parse_request_one_token_counterexample:
  "length (tokens (first_line (c_str (''GET'' @ CRLF)))) < 2
   \<and> ret (parse_request (''GET'' @ CRLF) [] [] []) \<noteq> - 1"
  by (simp add: parse_request_def CRLF_def c_str_def sscanf_s_s_def scan_str_def isspace_def tokens_def)

text \<open>
  C6, amended: for a buffer whose first line has fewer than two tokens,
  \<open>parse_request\<close> returns \<open>-1\<close> exactly when the buffer contains no CRLF; when it
  contains one, the result is \<open>0\<close>, the method is the first token of the whole buffer
  and the path its second token, each left as the caller passed it when there is no such
  token.  The path is then the caller's or a token of a later line.
\<close>

theorem parse_request_short_first_line:
  assumes "length (tokens (first_line (c_str raw))) < 2"
  shows "((ret (parse_request raw method path body) = - 1) = (\<not> (\<exists>a b. c_str raw = a @ CRLF @ b)))
    \<and> ((\<exists>a b. c_str raw = a @ CRLF @ b) \<longrightarrow>
         ret (parse_request raw method path body) = 0
         \<and> p_method (parse_request raw method path body) =
             (case tokens (c_str raw) of t # ts \<Rightarrow> t | [] \<Rightarrow> method)
         \<and> p_path (parse_request raw method path body) =
             (case tokens (c_str raw) of t # u # ts \<Rightarrow> u | _ \<Rightarrow> path)
         \<and> (p_path (parse_request raw method path body) = path
            \<or> p_path (parse_request raw method path body)
                 \<in> set (tokens (after_first_line (c_str raw)))))"
proof (cases "strstr (c_str raw) CRLF")
  case None
  then have "\<not> (\<exists>a b. c_str raw = a @ CRLF @ b)" by (simp add: strstr_None_iff)
  with None show ?thesis by (simp add: parse_request_ret)
next
  case (Some line_end)
  then have ex: "\<exists>a b. c_str raw = a @ CRLF @ b"
    using strstr_None_iff [of "c_str raw" CRLF] by simp
  from Some have t: "tokens (c_str raw)
      = tokens (first_line (c_str raw)) @ tokens (after_first_line (c_str raw))"
    by (intro tokens_lines) simp
  have p: "p_path (parse_request raw method path body) =
             (case tokens (c_str raw) of t # u # ts \<Rightarrow> u | _ \<Rightarrow> path)"
    using Some by (simp add: parse_request_path)
  have "p_path (parse_request raw method path body) = path
        \<or> p_path (parse_request raw method path body) \<in> set (tokens (after_first_line (c_str raw)))"
  proof (cases "tokens (first_line (c_str raw))")
    case Nil
    with t p show ?thesis
      by (auto split: list.splits)
  next
    case (Cons a as)
    with assms have "as = []" by simp
    with Cons t p show ?thesis
      by (auto split: list.splits)
  qed
  with Some ex p show ?thesis
    by (simp add: parse_request_ret parse_request_method)
qed

theorem parse_request_short_first_line_witness:
  "length (tokens (first_line (c_str (''GET'' @ CRLF)))) < 2
   \<and> ret (parse_request (''GET'' @ CRLF) [] [] []) = 0
   \<and> p_method (parse_request (''GET'' @ CRLF) [] [] []) = ''GET''
   \<and> p_path (parse_request (''GET'' @ CRLF) [] [] []) = []"
proof -
  have h: "length (tokens (first_line (c_str (''GET'' @ CRLF)))) < 2"
    by (simp add: CRLF_def c_str_def isspace_def tokens_def)
  have c: "\<exists>a b. c_str (''GET'' @ CRLF) = a @ CRLF @ b"
    by (rule exI [of _ "''GET''"], rule exI [of _ "[]"]) (simp add: c_str_def CRLF_def)
  have t: "tokens (c_str (''GET'' @ CRLF)) = [''GET'']"
    by (simp add: CRLF_def c_str_def isspace_def tokens_def)
  show ?thesis
    using h c t parse_request_short_first_line [OF h, of "[]" "[]" "[]"] by simp
qed

text \<open>
  C7, as stated: after a successful \<open>accept_connection\<close> the slot's \<open>authenticated\<close>
  flag is 0 and its \<open>username\<close> is empty.  The user name is not touched: after a
  client has logged in on slot 0 and gone, the next connection accepted into slot 0
  finds the name of that client in the slot.
\<close>

theorem accept_connection_username_counterexample:
  "handle_connection one_client 0 [Bytes login_request, RecvError] = Inr (Closed, stale_state)
   \<and> fst (accept_connection stale_state 7 ''10.0.0.9'') = 0
   \<and> username (connections (snd (accept_connection stale_state 7 ''10.0.0.9'')) ! 0) = user63
   \<and> user63 \<noteq> []"
proof -
  have "username (connections (snd (accept_connection stale_state 7 ''10.0.0.9'')) ! 0) = user63"
    using stale_state_slot0
    by (simp add: accept_connection_def find_free_slot_def find_free_slot_from.simps [of _ 0]
        MAX_CONNECTIONS_def Let_def)
  moreover have "user63 \<noteq> []" using length_user63 by auto
  ultimately show ?thesis
    using handle_connection_login_then_close accept_stale_state by blast
qed

text \<open>
  C7, amended: after a successful \<open>accept_connection\<close> the acquired slot is a valid
  index, its \<open>authenticated\<close> flag is 0 whatever it was before, it is active and holds
  the new descriptor; \<open>accept_connection\<close> does not write the \<open>username\<close> field, which
  keeps its previous contents.
\<close>

theorem accept_connection_resets_auth:
  assumes "length (connections s) = MAX_CONNECTIONS"
    and "accept_connection s client_socket peer = (slot, s')"
    and "slot \<noteq> - 1"
  shows "0 \<le> slot \<and> nat slot < MAX_CONNECTIONS
    \<and> authenticated (connections s' ! nat slot) = 0
    \<and> username (connections s' ! nat slot) = username (connections s ! nat slot)
    \<and> active (connections s' ! nat slot) = 1
    \<and> socket (connections s' ! nat slot) = client_socket"
proof -
  from assms(2,3) have cs: "\<not> client_socket < 0"
    by (auto simp: accept_connection_def)
  from assms(2,3) cs have ff: "\<not> find_free_slot (connections s) < 0"
    by (auto simp: accept_connection_def Let_def split: if_splits)
  with assms(2) cs have slot: "slot = find_free_slot (connections s)"
    by (auto simp: accept_connection_def Let_def)
  from ff have "nat (find_free_slot (connections s)) < MAX_CONNECTIONS"
    using find_free_slot_found [of "connections s"] by simp
  with assms(1,2) cs ff slot show ?thesis
    by (auto simp: accept_connection_def Let_def)
qed

theorem accept_connection_resets_auth_witness:
  "length (connections stale_state) = MAX_CONNECTIONS
   \<and> authenticated (connections stale_state ! 0) = 1
   \<and> authenticated (connections (snd (accept_connection stale_state 7 ''10.0.0.9'')) ! 0) = 0
   \<and> username (connections (snd (accept_connection stale_state 7 ''10.0.0.9'')) ! 0) = user63"
proof -
  have l: "length (connections stale_state) = MAX_CONNECTIONS"
    by (rule stale_state_slot0)
  have e: "accept_connection stale_state 7 ''10.0.0.9'' =
             (0, snd (accept_connection stale_state 7 ''10.0.0.9''))"
    using accept_stale_state by (simp add: prod_eq_iff)
  show ?thesis
    using l stale_state_slot0 accept_connection_resets_auth [OF l e] by simp
qed

text \<open>
  C8.  After \<open>close_all_connections\<close>, \<open>conn_count\<close> is 0 and every slot that was
  active has \<open>active = 0\<close>.
\<close>

theorem close_all_connections_clears:
  assumes "length (connections s) = MAX_CONNECTIONS"
  shows "conn_count (close_all_connections s) = 0
    \<and> (\<forall>i<MAX_CONNECTIONS. active (connections s ! i) \<noteq> 0 \<longrightarrow>
          active (connections (close_all_connections s) ! i) = 0)"
  using assms by (simp add: close_all_connections_nth) (simp add: close_all_connections_def)

theorem close_all_connections_clears_witness:
  "length (connections full_state) = MAX_CONNECTIONS
   \<and> active (connections full_state ! 3) = 1
   \<and> conn_count (close_all_connections full_state) = 0
   \<and> active (connections (close_all_connections full_state) ! 3) = 0"
proof -
  have l: "length (connections full_state) = MAX_CONNECTIONS"
    by (simp add: full_state_def init_state_def)
  have a: "active (connections full_state ! 3) = 1" "(3::nat) < MAX_CONNECTIONS"
    by (simp_all add: full_state_def init_state_def MAX_CONNECTIONS_def)
  show ?thesis
    using l a close_all_connections_clears [OF l] by simp
qed

text \<open>
  C9.  \<open>parse_request\<close> returns \<open>-1\<close> exactly when the C string in the buffer contains
  no CRLF, and \<open>0\<close> exactly when it contains one, whatever the first line holds.
\<close>

theorem parse_request_ret_iff_crlf:
  "((ret (parse_request raw method path body) = - 1) = (\<not> (\<exists>a b. c_str raw = a @ CRLF @ b)))
   \<and> ((ret (parse_request raw method path body) = 0) = (\<exists>a b. c_str raw = a @ CRLF @ b))"
proof (cases "strstr (c_str raw) CRLF")
  case None
  then have "\<not> (\<exists>a b. c_str raw = a @ CRLF @ b)" by (simp add: strstr_None_iff)
  with None show ?thesis by (simp add: parse_request_ret)
next
  case (Some line_end)
  then have "\<exists>a b. c_str raw = a @ CRLF @ b"
    using strstr_None_iff [of "c_str raw" CRLF] by simp
  with Some show ?thesis by (simp add: parse_request_ret)
qed

text \<open>
  C10.  For a \<open>GET\<close> request whose path, held in the 256-byte array, begins with
  \<open>/file/\<close> and whose file opens, the handler reads the first 2047 bytes of the file
  at most, and the \<open>Content-Length\<close> header of its response is the number of bytes
  read; what the file holds beyond 2047 bytes is not sent.
\<close>

theorem handle_request_get_file:
  assumes "take 6 path = ''/file/''"
    and "bytes_written path \<le> 256"
    and "files s (''/var/data'' @ drop 5 path) = Some data"
  shows "handle_request s slot ''GET'' path body =
           Inr (Some (''HTTP/1.1 200 OK'' @ CRLF @ ''Content-Length: ''
                      @ dec_nat (length (fread data 2047)) @ CRLF @ CRLF @ c_str (fread data 2047)), s)
    \<and> content_length (''HTTP/1.1 200 OK'' @ CRLF @ ''Content-Length: ''
                      @ dec_nat (length (fread data 2047)) @ CRLF @ CRLF @ c_str (fread data 2047))
        = Some (length (fread data 2047))
    \<and> fread data 2047 = take 2047 data
    \<and> length (fread data 2047) = min (length data) 2047"
proof -
  from assms(2) have "\<not> 512 < bytes_written (''/var/data'' @ drop 5 path)"
    by (simp add: bytes_written_def)
  with assms(1,3) have "handle_request s slot ''GET'' path body =
           Inr (Some (''HTTP/1.1 200 OK'' @ CRLF @ ''Content-Length: ''
                      @ dec_nat (length (fread data 2047)) @ CRLF @ CRLF @ c_str (fread data 2047)), s)"
    by (simp add: handle_request_def Let_def)
  moreover have "content_length (''HTTP/1.1 200 OK'' @ CRLF @ ''Content-Length: ''
                      @ dec_nat (length (fread data 2047)) @ CRLF @ CRLF @ c_str (fread data 2047))
        = Some (length (fread data 2047))"
    by (rule content_length_file_response)
  moreover have "fread data 2047 = take 2047 data" by (simp add: fread_def)
  moreover have "length (fread data 2047) = min (length data) 2047" by (simp add: fread_def)
  ultimately show ?thesis by blast
qed

theorem handle_request_get_file_witness:
  "take 6 ''/file/a.txt'' = ''/file/''
   \<and> bytes_written ''/file/a.txt'' \<le> 256
   \<and> files file_state (''/var/data'' @ drop 5 ''/file/a.txt'') = Some (replicate 3000 (CHR ''x''))
   \<and> handle_request file_state 0 ''GET'' ''/file/a.txt'' [] =
        Inr (Some (''HTTP/1.1 200 OK'' @ CRLF @ ''Content-Length: 2047'' @ CRLF @ CRLF
                   @ replicate 2047 (CHR ''x'')), file_state)"
proof -
  have a: "take 6 ''/file/a.txt'' = ''/file/''" by simp
  have b: "bytes_written ''/file/a.txt'' \<le> 256" by (simp add: bytes_written_def)
  have c: "files file_state (''/var/data'' @ drop 5 ''/file/a.txt'') = Some (replicate 3000 (CHR ''x''))"
    by (simp add: file_state_def init_state_def)
  have d: "fread (replicate 3000 (CHR ''x'')) 2047 = replicate 2047 (CHR ''x'')"
    by (simp add: fread_def)
  have e: "c_str (replicate 2047 (CHR ''x'')) = replicate 2047 (CHR ''x'')"
    by (simp add: c_str_def)
  show ?thesis
    using a b c handle_request_get_file [OF a b c, of 0 "[]"]
    by (simp add: d e dec_nat_2047)
qed

section \<open>Further properties\<close>

text \<open>
  X1.  In every state reached from the initial one by calls of \<open>accept_connection\<close> and
  by workers running their clean-up block, with no call of \<open>close_all_connections\<close>,
  \<open>conn_count\<close> is the number of active slots.
\<close>

theorem conn_count_without_close_all:
  "no_close_all ops \<Longrightarrow>
     conn_count (run_ops init_state ops) = int (active_count (run_ops init_state ops))"
  using registry_inv_run [OF registry_inv_init, of ops] by (simp add: registry_inv_def)

theorem conn_count_without_close_all_witness:
  "no_close_all [Accept 5 ''10.0.0.1'', WorkerExit 0]
   \<and> conn_count (run_ops init_state [Accept 5 ''10.0.0.1'', WorkerExit 0])
       = int (active_count (run_ops init_state [Accept 5 ''10.0.0.1'', WorkerExit 0]))"
proof -
  have h: "no_close_all [Accept 5 ''10.0.0.1'', WorkerExit 0]"
    by (simp add: no_close_all_def)
  show ?thesis
    using h conn_count_without_close_all [OF h] by blast
qed

end
